theory Spec2Isabelle
  imports Complex_Main "HOL-Library.Sublist"
begin

section \<open>JavaScript numbers\<close>

text \<open>
  A JavaScript number is an IEEE 754 double: \<^verbatim>\<open>NaN\<close>, an infinity, or a finite value, which is
  kept as the real number it denotes (the two zeros are not told apart: no operation of the
  component can). Every arithmetic operation yields the double nearest to the exact result,
  a tie going to the even significand.
\<close>

datatype number = NaN | PosInfinity | NegInfinity | Fin real

definition pow2 :: "int \<Rightarrow> real" where
  "pow2 q = (if 0 \<le> q then 2 ^ nat q else 1 / 2 ^ nat (- q))"

text \<open>The binary exponent of a positive real: the \<open>e\<close> with \<open>2\<^sup>e \<le> x < 2\<^sup>e\<^sup>+\<^sup>1\<close>.\<close>

function float_exp :: "real \<Rightarrow> int" where
  "float_exp x =
     (if x \<le> 0 then 0
      else if x < 1 then float_exp (2 * x) - 1
      else if 2 \<le> x then float_exp (x / 2) + 1
      else 0)"
  by pat_completeness auto
termination
proof (relation "measure (\<lambda>x. nat \<bar>\<lfloor>log 2 x\<rfloor>\<bar>)")
  show "wf (measure (\<lambda>x. nat \<bar>\<lfloor>log 2 x\<rfloor>\<bar>))" by simp
next
  fix x :: real
  assume "\<not> x \<le> 0" and "x < 1"
  then have l: "log 2 (2 * x) = 1 + log 2 x" and "log 2 x < 0"
    by (simp_all add: log_mult)
  then have neg: "\<lfloor>log 2 x\<rfloor> < 0"
    by (simp add: floor_less_iff)
  have "\<lfloor>log 2 (2 * x)\<rfloor> = 1 + \<lfloor>log 2 x\<rfloor>"
    unfolding l by simp
  with neg show "(2 * x, x) \<in> measure (\<lambda>x. nat \<bar>\<lfloor>log 2 x\<rfloor>\<bar>)"
    unfolding in_measure by arith
next
  fix x :: real
  assume "\<not> x \<le> 0" and "\<not> x < 1" and "2 \<le> x"
  then have l: "log 2 (x / 2) = log 2 x - 1" and "1 \<le> log 2 x"
    by (simp_all add: log_divide le_log_iff)
  then have pos: "1 \<le> \<lfloor>log 2 x\<rfloor>"
    by (simp add: le_floor_iff)
  have "\<lfloor>log 2 (x / 2)\<rfloor> = \<lfloor>log 2 x\<rfloor> - 1"
    unfolding l by simp
  with pos show "(x / 2, x) \<in> measure (\<lambda>x. nat \<bar>\<lfloor>log 2 x\<rfloor>\<bar>)"
    unfolding in_measure by arith
qed

declare float_exp.simps [simp del]

text \<open>Rounding to the nearest integer, a tie going to the even one.\<close>

definition round_half_even :: "real \<Rightarrow> int" where
  "round_half_even t =
     (let f = \<lfloor>t\<rfloor> in
        if real_of_int f + 1 / 2 < t then f + 1
        else if t < real_of_int f + 1 / 2 then f
        else if even f then f
        else f + 1)"

text \<open>
  The double nearest to a real, were the exponent range unbounded above: the significand
  has 53 bits, and below \<open>2\<^sup>-\<^sup>1\<^sup>0\<^sup>2\<^sup>2\<close> the spacing stays that of the subnormal numbers.
\<close>

definition round_to_double :: "real \<Rightarrow> real" where
  "round_to_double x =
     (if x = 0 then 0
      else
        let q = max (float_exp \<bar>x\<bar>) (- 1022) - 52
        in sgn x * real_of_int (round_half_even (\<bar>x\<bar> / pow2 q)) * pow2 q)"

text \<open>
  The result of an operation whose exact value is \<open>x\<close>: rounded, a magnitude of \<open>2\<^sup>1\<^sup>0\<^sup>2\<^sup>4\<close> or
  more (binary exponent 1024 or more) giving an infinity.
\<close>

definition to_number :: "real \<Rightarrow> number" where
  "to_number x =
     (let r = round_to_double x
      in if 1024 \<le> float_exp \<bar>r\<bar> then (if 0 < r then PosInfinity else NegInfinity)
         else Fin r)"

fun num_add :: "number \<Rightarrow> number \<Rightarrow> number" where
  "num_add (Fin a) (Fin b) = to_number (a + b)"
| "num_add NaN b = NaN"
| "num_add a NaN = NaN"
| "num_add PosInfinity NegInfinity = NaN"
| "num_add NegInfinity PosInfinity = NaN"
| "num_add PosInfinity b = PosInfinity"
| "num_add a PosInfinity = PosInfinity"
| "num_add NegInfinity b = NegInfinity"
| "num_add a NegInfinity = NegInfinity"

fun num_mul :: "number \<Rightarrow> number \<Rightarrow> number" where
  "num_mul (Fin a) (Fin b) = to_number (a * b)"
| "num_mul NaN b = NaN"
| "num_mul a NaN = NaN"
| "num_mul PosInfinity (Fin b) = (if b = 0 then NaN else if 0 < b then PosInfinity else NegInfinity)"
| "num_mul NegInfinity (Fin b) = (if b = 0 then NaN else if 0 < b then NegInfinity else PosInfinity)"
| "num_mul (Fin a) PosInfinity = (if a = 0 then NaN else if 0 < a then PosInfinity else NegInfinity)"
| "num_mul (Fin a) NegInfinity = (if a = 0 then NaN else if 0 < a then NegInfinity else PosInfinity)"
| "num_mul PosInfinity PosInfinity = PosInfinity"
| "num_mul NegInfinity NegInfinity = PosInfinity"
| "num_mul PosInfinity NegInfinity = NegInfinity"
| "num_mul NegInfinity PosInfinity = NegInfinity"

fun Math_max :: "number \<Rightarrow> number \<Rightarrow> number" where
  "Math_max (Fin a) (Fin b) = Fin (max a b)"
| "Math_max NaN b = NaN"
| "Math_max a NaN = NaN"
| "Math_max PosInfinity b = PosInfinity"
| "Math_max a PosInfinity = PosInfinity"
| "Math_max NegInfinity b = b"
| "Math_max a NegInfinity = a"

fun Math_min :: "number \<Rightarrow> number \<Rightarrow> number" where
  "Math_min (Fin a) (Fin b) = Fin (min a b)"
| "Math_min NaN b = NaN"
| "Math_min a NaN = NaN"
| "Math_min NegInfinity b = NegInfinity"
| "Math_min a NegInfinity = NegInfinity"
| "Math_min PosInfinity b = b"
| "Math_min a PosInfinity = a"

section \<open>Pixel buffers\<close>

text \<open>
  The image editor component (\<^verbatim>\<open>ImageEditor\<close>) works on \<^verbatim>\<open>ImageData\<close> objects: a width, a
  height and a \<^verbatim>\<open>Uint8ClampedArray\<close> of \<open>4 * width * height\<close> samples (R, G, B, A per pixel,
  row by row). A sample is modelled as a natural number; the conversion that the typed array
  applies on every store (\<open>ToUint8Clamp\<close>) is written out below and is the only way a
  sample is produced, so samples stay in \<open>0..255\<close>.
\<close>

datatype dom_error = IndexSizeError | SecurityError

record imageData =
  width :: nat
  height :: nat
  data :: "nat list"

text \<open>\<^verbatim>\<open>new ImageData(w, h)\<close>: zero-filled; the constructor throws on a zero dimension.\<close>

definition new_ImageData :: "nat \<Rightarrow> nat \<Rightarrow> dom_error + imageData" where
  "new_ImageData w h =
     (if w = 0 \<or> h = 0 then Inl IndexSizeError
      else Inr \<lparr>width = w, height = h, data = replicate (w * h * 4) 0\<rparr>)"

text \<open>Every \<^verbatim>\<open>ImageData\<close> object the platform hands out satisfies this.\<close>

definition wf_imageData :: "imageData \<Rightarrow> bool" where
  "wf_imageData im \<longleftrightarrow>
     0 < width im \<and> 0 < height im \<and> length (data im) = width im * height im * 4"

text \<open>
  \<^verbatim>\<open>data[idx]\<close> and \<^verbatim>\<open>kernel[kidx]\<close> used as numbers: \<^verbatim>\<open>undefined\<close>, hence \<^verbatim>\<open>NaN\<close>, outside the
  array.
\<close>

definition typed_get :: "nat list \<Rightarrow> int \<Rightarrow> number" where
  "typed_get xs i = (if 0 \<le> i \<and> i < int (length xs) then Fin (real (xs ! nat i)) else NaN)"

definition array_get :: "number list \<Rightarrow> int \<Rightarrow> number" where
  "array_get xs i = (if 0 \<le> i \<and> i < int (length xs) then xs ! nat i else NaN)"

text \<open>
  The store conversion of a \<^verbatim>\<open>Uint8ClampedArray\<close> (ECMAScript \<^verbatim>\<open>ToUint8Clamp\<close>): \<^verbatim>\<open>NaN\<close> gives 0,
  the value is clamped to \<open>0..255\<close> and rounded to the nearest integer, a tie going to the
  even one.
\<close>

definition ToUint8Clamp :: "number \<Rightarrow> nat" where
  "ToUint8Clamp v =
     (case v of
        NaN \<Rightarrow> 0
      | NegInfinity \<Rightarrow> 0
      | PosInfinity \<Rightarrow> 255
      | Fin x \<Rightarrow>
          if x \<le> 0 then 0
          else if 255 \<le> x then 255
          else let f = \<lfloor>x\<rfloor> in
            if real_of_int f + 1 / 2 < x then nat (f + 1)
            else if x < real_of_int f + 1 / 2 then nat f
            else if even f then nat f
            else nat (f + 1))"

section \<open>The sharpening pass\<close>

text \<open>
  The 3 by 3 array \<^verbatim>\<open>kernel\<close> of \<^verbatim>\<open>applySharpen\<close>, row by row; \<open>amount\<close> is a finite double.
\<close>

definition kernel_array :: "real \<Rightarrow> number list" where
  "kernel_array amount =
     [Fin 0, Fin (- amount), Fin 0,
      Fin (- amount), num_add (Fin 1) (num_mul (Fin 4) (Fin amount)), Fin (- amount),
      Fin 0, Fin (- amount), Fin 0]"

text \<open>The two innermost loops (\<^verbatim>\<open>ky\<close>, \<^verbatim>\<open>kx\<close> from -1 to 1): the sum for channel \<open>c\<close> at \<open>(x, y)\<close>.\<close>

definition kernel_term :: "nat list \<Rightarrow> nat \<Rightarrow> number list \<Rightarrow> nat \<Rightarrow> nat \<Rightarrow> nat \<Rightarrow> int \<Rightarrow> int \<Rightarrow> number \<Rightarrow> number" where
  "kernel_term dat w ker y x c ky kx acc =
     (let idx = ((int y + ky) * int w + (int x + kx)) * 4 + int c;
          kidx = (ky + 1) * 3 + (kx + 1)
      in num_add acc (num_mul (typed_get dat idx) (array_get ker kidx)))"

definition kernel_sum :: "nat list \<Rightarrow> nat \<Rightarrow> number list \<Rightarrow> nat \<Rightarrow> nat \<Rightarrow> nat \<Rightarrow> number" where
  "kernel_sum dat w ker y x c =
     fold (\<lambda>ky acc. fold (\<lambda>kx acc. kernel_term dat w ker y x c ky kx acc) [-1, 0, 1] acc)
       [-1, 0, 1] (Fin 0)"

text \<open>The body of the \<^verbatim>\<open>c\<close> loop: one colour sample of the output.\<close>

definition sharpen_channel :: "nat list \<Rightarrow> nat \<Rightarrow> number list \<Rightarrow> nat \<Rightarrow> nat \<Rightarrow> nat \<Rightarrow> nat list \<Rightarrow> nat list" where
  "sharpen_channel dat w ker y x c out =
     (let acc = kernel_sum dat w ker y x c;
          idx = (y * w + x) * 4 + c
      in out[idx := ToUint8Clamp (Math_min (Fin 255) (Math_max (Fin 0) acc))])"

text \<open>
  The body of the \<^verbatim>\<open>x\<close> loop: the three colour channels, then the alpha sample copied
  from the input. The read is in range whenever the write is.
\<close>

definition sharpen_pixel :: "nat list \<Rightarrow> nat \<Rightarrow> number list \<Rightarrow> nat \<Rightarrow> nat \<Rightarrow> nat list \<Rightarrow> nat list" where
  "sharpen_pixel dat w ker y x out =
     (let out' = fold (\<lambda>c out. sharpen_channel dat w ker y x c out) [0, 1, 2] out;
          idx = (y * w + x) * 4 + 3
      in out'[idx := dat ! idx])"

definition sharpen_row :: "nat list \<Rightarrow> nat \<Rightarrow> number list \<Rightarrow> nat \<Rightarrow> nat list \<Rightarrow> nat list" where
  "sharpen_row dat w ker y out = fold (\<lambda>x out. sharpen_pixel dat w ker y x out) [1..<w - 1] out"

definition sharpen_rows :: "nat list \<Rightarrow> nat \<Rightarrow> nat \<Rightarrow> number list \<Rightarrow> nat list \<Rightarrow> nat list" where
  "sharpen_rows dat w h ker out = fold (\<lambda>y out. sharpen_row dat w ker y out) [1..<h - 1] out"

definition applySharpen :: "imageData \<Rightarrow> real \<Rightarrow> dom_error + imageData" where
  "applySharpen im amount =
     (let dat = data im; w = width im; h = height im
      in case new_ImageData w h of
           Inl e \<Rightarrow> Inl e
         | Inr output \<Rightarrow>
             Inr (output\<lparr>data := sharpen_rows dat w h (kernel_array amount) (data output)\<rparr>))"

text \<open>
  What one output sample holds once the loops have visited its pixel: the alpha sample of
  the input, or the converted, clamped kernel sum of its channel.
\<close>

definition stored_sample :: "nat list \<Rightarrow> nat \<Rightarrow> number list \<Rightarrow> nat \<Rightarrow> nat" where
  "stored_sample dat w ker i =
     (if i mod 4 = 3 then dat ! i
      else ToUint8Clamp (Math_min (Fin 255) (Math_max (Fin 0)
             (kernel_sum dat w ker (i div 4 div w) (i div 4 mod w) (i mod 4)))))"

text \<open>
  The convolution as the design document words it: weight \<open>1 + 4 * k\<close> at the centre,
  \<open>- k\<close> at the four orthogonal neighbours, 0 at the diagonal ones, summed over the 3 by 3
  neighbourhood of \<open>(x, y)\<close> in channel \<open>c\<close>, row by row and in double precision.
\<close>

definition spec_weight :: "real \<Rightarrow> int \<Rightarrow> int \<Rightarrow> number" where
  "spec_weight k dy dx =
     (if dy = 0 \<and> dx = 0 then num_add (Fin 1) (num_mul (Fin 4) (Fin k))
      else if dy = 0 \<or> dx = 0 then Fin (- k)
      else Fin 0)"

definition sample_at :: "imageData \<Rightarrow> int \<Rightarrow> int \<Rightarrow> nat \<Rightarrow> number" where
  "sample_at im y x c = Fin (real (data im ! (nat (y * int (width im) + x) * 4 + c)))"

definition neighbourhood :: "(int \<times> int) list" where
  "neighbourhood = [(-1, -1), (-1, 0), (-1, 1), (0, -1), (0, 0), (0, 1), (1, -1), (1, 0), (1, 1)]"

definition spec_convolution :: "imageData \<Rightarrow> real \<Rightarrow> nat \<Rightarrow> nat \<Rightarrow> nat \<Rightarrow> number" where
  "spec_convolution im k y x c =
     fold (\<lambda>(dy, dx) acc.
             num_add acc (num_mul (sample_at im (int y + dy) (int x + dx) c) (spec_weight k dy dx)))
       neighbourhood (Fin 0)"

section \<open>The editor component\<close>

text \<open>
  The component state (\<^verbatim>\<open>useState\<close> hooks of \<^verbatim>\<open>ImageEditor\<close>) and the canvas element behind
  \<^verbatim>\<open>canvasRef\<close>. The rotation is only ever 0 or the result of \<^verbatim>\<open>(prev + 90) % 360\<close>, an
  integer; the other parameters are finite doubles, kept as the reals they denote. The state variable \<^verbatim>\<open>image\<close> is the
  field \<open>image_elem\<close>.
\<close>

record htmlImage =
  image_width :: nat
  image_height :: nat
  image_pixels :: "nat list"

record canvas =
  canvas_width :: nat
  canvas_height :: nat
  canvas_pixels :: "nat list"
  context2d :: bool

record editor =
  image_elem :: "htmlImage option"
  brightness :: real
  contrast :: real
  saturation :: real
  sharpness :: real
  rotation :: int
  zoom :: real
  canvasRef :: "canvas option"

text \<open>A canvas element as the browser creates it: 300 by 150, transparent black.\<close>

definition default_canvas :: canvas where
  "default_canvas =
     \<lparr>canvas_width = 300, canvas_height = 150,
      canvas_pixels = replicate (300 * 150 * 4) 0, context2d = True\<rparr>"

definition initial_editor :: editor where
  "initial_editor =
     \<lparr>image_elem = None, brightness = 100, contrast = 100, saturation = 100, sharpness = 0,
      rotation = 0, zoom = 1, canvasRef = None\<rparr>"

text \<open>After the first commit the \<^verbatim>\<open>canvas\<close> element of the JSX is mounted.\<close>

definition mounted_editor :: editor where
  "mounted_editor = initial_editor\<lparr>canvasRef := Some default_canvas\<rparr>"

subsection \<open>The 2D context: transform and filter\<close>

text \<open>
  The current transformation matrix of the context, \<open>x' = a x + c y + e\<close>,
  \<open>y' = b x + d y + f\<close>; \<^verbatim>\<open>translate\<close>, \<^verbatim>\<open>rotate\<close> and \<^verbatim>\<open>scale\<close> multiply it on the right.
\<close>

record transform =
  m_a :: real
  m_b :: real
  m_c :: real
  m_d :: real
  m_e :: real
  m_f :: real

definition identity_transform :: transform where
  "identity_transform = \<lparr>m_a = 1, m_b = 0, m_c = 0, m_d = 1, m_e = 0, m_f = 0\<rparr>"

definition translate :: "real \<Rightarrow> real \<Rightarrow> transform \<Rightarrow> transform" where
  "translate tx ty m =
     m\<lparr>m_e := m_a m * tx + m_c m * ty + m_e m, m_f := m_b m * tx + m_d m * ty + m_f m\<rparr>"

definition rotate_by :: "real \<Rightarrow> transform \<Rightarrow> transform" where
  "rotate_by angle m =
     m\<lparr>m_a := m_a m * cos angle + m_c m * sin angle,
       m_b := m_b m * cos angle + m_d m * sin angle,
       m_c := m_c m * cos angle - m_a m * sin angle,
       m_d := m_d m * cos angle - m_b m * sin angle\<rparr>"

definition scale :: "real \<Rightarrow> real \<Rightarrow> transform \<Rightarrow> transform" where
  "scale sx sy m =
     m\<lparr>m_a := m_a m * sx, m_b := m_b m * sx, m_c := m_c m * sy, m_d := m_d m * sy\<rparr>"

text \<open>
  The filter string \<^verbatim>\<open>brightness(b%) contrast(c%) saturate(s%)\<close>, kept as its three
  percentages.
\<close>

record css_filter =
  filter_brightness :: real
  filter_contrast :: real
  filter_saturate :: real

text \<open>
  \<^verbatim>\<open>ctx.drawImage(image, 0, 0)\<close> is the browser's: it is a parameter of the model, giving the
  pixels of a cleared canvas of the stated size after the image has been drawn through the
  transform and the filter.
\<close>

type_synonym rasterizer = "transform \<Rightarrow> css_filter \<Rightarrow> htmlImage \<Rightarrow> nat \<Rightarrow> nat \<Rightarrow> nat list"

text \<open>The four transformation calls of \<^verbatim>\<open>applyFilters\<close>, in their order.\<close>

definition ctx_transform :: "editor \<Rightarrow> nat \<Rightarrow> nat \<Rightarrow> transform" where
  "ctx_transform st cw ch =
     translate (- (real cw / 2)) (- (real ch / 2))
       (scale (zoom st) (zoom st)
          (rotate_by (real_of_int (rotation st) * pi / 180)
             (translate (real cw / 2) (real ch / 2) identity_transform)))"

definition ctx_filter :: "editor \<Rightarrow> css_filter" where
  "ctx_filter st =
     \<lparr>filter_brightness = brightness st, filter_contrast = contrast st,
      filter_saturate = saturation st\<rparr>"

text \<open>The canvas content after the drawing step, before any sharpening.\<close>

definition composited :: "rasterizer \<Rightarrow> editor \<Rightarrow> htmlImage \<Rightarrow> nat list" where
  "composited drawImage st img =
     drawImage (ctx_transform st (image_width img) (image_height img)) (ctx_filter st) img
       (image_width img) (image_height img)"

text \<open>\<^verbatim>\<open>ctx.getImageData(0, 0, w, h)\<close> on a \<open>w\<close> by \<open>h\<close> canvas; it throws on an empty rectangle.\<close>

definition getImageData :: "nat list \<Rightarrow> nat \<Rightarrow> nat \<Rightarrow> dom_error + imageData" where
  "getImageData pixels w h =
     (if w = 0 \<or> h = 0 then Inl IndexSizeError
      else Inr \<lparr>width = w, height = h, data = pixels\<rparr>)"

text \<open>
  \<^verbatim>\<open>applyFilters\<close>: nothing happens without an image, a canvas or a context; otherwise the
  canvas takes the image's size, the image is drawn, and with a positive sharpness the whole
  canvas is read back, sharpened and written back (\<^verbatim>\<open>putImageData\<close> at the origin replaces
  every pixel).
\<close>

definition applyFilters :: "rasterizer \<Rightarrow> editor \<Rightarrow> dom_error + editor" where
  "applyFilters drawImage st =
     (case image_elem st of
        None \<Rightarrow> Inr st
      | Some img \<Rightarrow>
         (case canvasRef st of
            None \<Rightarrow> Inr st
          | Some cv \<Rightarrow>
             if \<not> context2d cv then Inr st
             else
               let w = image_width img; h = image_height img;
                   drawn = composited drawImage st img
               in if sharpness st > 0 then
                    (case getImageData drawn w h of
                       Inl e \<Rightarrow> Inl e
                     | Inr imageData \<Rightarrow>
                        (case applySharpen imageData (round_to_double (sharpness st / 100)) of
                           Inl e \<Rightarrow> Inl e
                         | Inr sharpened \<Rightarrow>
                            Inr (st\<lparr>canvasRef := Some (cv\<lparr>canvas_width := w, canvas_height := h,
                                       canvas_pixels := data sharpened\<rparr>)\<rparr>)))
                  else
                    Inr (st\<lparr>canvasRef := Some (cv\<lparr>canvas_width := w, canvas_height := h,
                               canvas_pixels := drawn\<rparr>)\<rparr>)))"

subsection \<open>Parameter handlers\<close>

text \<open>
  The slider callbacks \<^verbatim>\<open>(v) => setBrightness(v[0])\<close> and their siblings. \<^verbatim>\<open>v[0]\<close> of an empty
  array is \<^verbatim>\<open>undefined\<close>, which the number-typed state of this model cannot hold: \<open>None\<close>.
\<close>

definition onBrightnessChange :: "real list \<Rightarrow> editor \<Rightarrow> editor option" where
  "onBrightnessChange v st = (case v of [] \<Rightarrow> None | v0 # _ \<Rightarrow> Some (st\<lparr>brightness := v0\<rparr>))"

definition onContrastChange :: "real list \<Rightarrow> editor \<Rightarrow> editor option" where
  "onContrastChange v st = (case v of [] \<Rightarrow> None | v0 # _ \<Rightarrow> Some (st\<lparr>contrast := v0\<rparr>))"

definition onSaturationChange :: "real list \<Rightarrow> editor \<Rightarrow> editor option" where
  "onSaturationChange v st = (case v of [] \<Rightarrow> None | v0 # _ \<Rightarrow> Some (st\<lparr>saturation := v0\<rparr>))"

definition onSharpnessChange :: "real list \<Rightarrow> editor \<Rightarrow> editor option" where
  "onSharpnessChange v st = (case v of [] \<Rightarrow> None | v0 # _ \<Rightarrow> Some (st\<lparr>sharpness := v0\<rparr>))"

text \<open>The \<^verbatim>\<open>min\<close>, \<^verbatim>\<open>max\<close> and \<^verbatim>\<open>step\<close> attributes the JSX gives each slider.\<close>

record slider =
  slider_min :: real
  slider_max :: real
  slider_step :: real

definition brightness_slider :: slider where
  "brightness_slider = \<lparr>slider_min = 0, slider_max = 200, slider_step = 1\<rparr>"

definition contrast_slider :: slider where
  "contrast_slider = \<lparr>slider_min = 0, slider_max = 200, slider_step = 1\<rparr>"

definition saturation_slider :: slider where
  "saturation_slider = \<lparr>slider_min = 0, slider_max = 200, slider_step = 1\<rparr>"

definition sharpness_slider :: slider where
  "sharpness_slider = \<lparr>slider_min = 0, slider_max = 100, slider_step = 1\<rparr>"

text \<open>The remainder operator \<^verbatim>\<open>%\<close> on integers: the sign follows the dividend.\<close>

definition js_rem :: "int \<Rightarrow> int \<Rightarrow> int" where
  "js_rem a b = sgn a * (\<bar>a\<bar> mod \<bar>b\<bar>)"

definition handleRotate :: "editor \<Rightarrow> editor" where
  "handleRotate st = st\<lparr>rotation := js_rem (rotation st + 90) 360\<rparr>"

text \<open>The literal \<^verbatim>\<open>0.1\<close> is the double nearest to one tenth; 3 and 0.5 are doubles.\<close>

definition handleZoomIn :: "editor \<Rightarrow> editor" where
  "handleZoomIn st = st\<lparr>zoom := min (round_to_double (zoom st + round_to_double (1 / 10))) 3\<rparr>"

definition handleZoomOut :: "editor \<Rightarrow> editor" where
  "handleZoomOut st = st\<lparr>zoom := max (round_to_double (zoom st - round_to_double (1 / 10))) (1 / 2)\<rparr>"

datatype zoom_click = ZoomIn | ZoomOut

fun zoom_clicks :: "zoom_click list \<Rightarrow> editor \<Rightarrow> editor" where
  "zoom_clicks [] st = st"
| "zoom_clicks (ZoomIn # cs) st = zoom_clicks cs (handleZoomIn st)"
| "zoom_clicks (ZoomOut # cs) st = zoom_clicks cs (handleZoomOut st)"

subsection \<open>Saving\<close>

text \<open>
  A blob is kept as its MIME type and the raster it encodes. \<^verbatim>\<open>canvas.toBlob\<close> is the
  browser's and a parameter of the model: it throws for a tainted canvas, and hands the
  callback a blob or \<^verbatim>\<open>null\<close>.
\<close>

record blob =
  blob_type :: string
  blob_width :: nat
  blob_height :: nat
  blob_pixels :: "nat list"

type_synonym blob_encoder = "canvas \<Rightarrow> string \<Rightarrow> dom_error + blob option"

text \<open>
  \<^verbatim>\<open>handleSave\<close>: \<open>Inr (Some b)\<close> is the call \<^verbatim>\<open>onSave(b)\<close>, \<open>Inr None\<close> a return without
  it, \<open>Inl e\<close> an exception of \<^verbatim>\<open>toBlob\<close> passing through.
\<close>

definition handleSave :: "blob_encoder \<Rightarrow> editor \<Rightarrow> dom_error + blob option" where
  "handleSave toBlob st =
     (case canvasRef st of
        None \<Rightarrow> Inr None
      | Some cv \<Rightarrow>
         (case toBlob cv ''image/png'' of
            Inl e \<Rightarrow> Inl e
          | Inr None \<Rightarrow> Inr None
          | Inr (Some b) \<Rightarrow> Inr (Some b)))"

text \<open>
  An encoder as the HTML standard describes \<^verbatim>\<open>toBlob\<close> for a canvas that is not tainted:
  \<^verbatim>\<open>null\<close> for a canvas without pixels, otherwise a blob of the canvas bitmap.
\<close>

definition bitmap_encoder :: blob_encoder where
  "bitmap_encoder cv mime =
     (if canvas_width cv = 0 \<or> canvas_height cv = 0 then Inr None
      else Inr (Some \<lparr>blob_type = mime, blob_width = canvas_width cv,
                      blob_height = canvas_height cv, blob_pixels = canvas_pixels cv\<rparr>))"

section \<open>The gallery: classifying stored files\<close>

text \<open>The item type, \<^verbatim>\<open>'image'\<close> or \<^verbatim>\<open>'video'\<close>.\<close>

datatype media_type = ImageItem | VideoItem

record mediaItem =
  item_id :: string
  item_name :: string
  item_url :: string
  item_type :: media_type

record fileObject =
  file_id :: string
  file_name :: string

text \<open>\<^verbatim>\<open>toLowerCase\<close> on a name of ASCII characters.\<close>

definition toLowerCase_char :: "char \<Rightarrow> char" where
  "toLowerCase_char ch =
     (let n = (of_char ch :: nat) in if 65 \<le> n \<and> n \<le> 90 then char_of (n + 32) else ch)"

definition toLowerCase :: "string \<Rightarrow> string" where
  "toLowerCase s = map toLowerCase_char s"

text \<open>
  The regular expression \<^verbatim>\<open>/\.(mp4|webm|mov)$/\<close>: \<open>match_literal\<close> consumes a literal,
  \<open>match_here\<close> tries the expression at the start of the remaining input (the dot, one
  of the alternatives in their order, then the end of the input), and \<open>regex_search\<close>
  tries every start position from the left, as \<^verbatim>\<open>String.prototype.match\<close> does.
\<close>

fun match_literal :: "string \<Rightarrow> string \<Rightarrow> string option" where
  "match_literal [] s = Some s"
| "match_literal (p # ps) [] = None"
| "match_literal (p # ps) (ch # s) = (if p = ch then match_literal ps s else None)"

definition match_here :: "string \<Rightarrow> bool" where
  "match_here s =
     (case match_literal ''.'' s of
        None \<Rightarrow> False
      | Some r \<Rightarrow> list_ex (\<lambda>alt. match_literal alt r = Some []) [''mp4'', ''webm'', ''mov''])"

fun regex_search :: "string \<Rightarrow> bool" where
  "regex_search [] = match_here []"
| "regex_search (ch # s) = (match_here (ch # s) \<or> regex_search s)"

text \<open>The body of the \<^verbatim>\<open>data.map\<close> callback of \<^verbatim>\<open>loadMedia\<close>; \<open>publicUrl\<close> is the storage client's.\<close>

definition to_mediaItem :: "(string \<Rightarrow> string) \<Rightarrow> fileObject \<Rightarrow> mediaItem" where
  "to_mediaItem publicUrl file =
     (let isVideo = regex_search (toLowerCase (file_name file))
      in \<lparr>item_id = file_id file, item_name = file_name file,
          item_url = publicUrl (file_name file),
          item_type = (if isVideo then VideoItem else ImageItem)\<rparr>)"

text \<open>What the 3D viewer receives, and whether a grid tile shows the edit button.\<close>

definition viewer_media :: "mediaItem list \<Rightarrow> mediaItem list" where
  "viewer_media media = filter (\<lambda>m. item_type m = ImageItem) media"

definition edit_button_shown :: "mediaItem \<Rightarrow> bool" where
  "edit_button_shown item \<longleftrightarrow> item_type item = ImageItem"

text \<open>
  The classification as the design document words it: the name ends, case-insensitively,
  with one of the three extensions.
\<close>

definition ends_with_ci :: "string \<Rightarrow> string \<Rightarrow> bool" where
  "ends_with_ci ext name \<longleftrightarrow>
     length ext \<le> length name \<and>
     toLowerCase (drop (length name - length ext) name) = ext"

definition spec_is_video :: "string \<Rightarrow> bool" where
  "spec_is_video name \<longleftrightarrow>
     ends_with_ci ''.mp4'' name \<or> ends_with_ci ''.webm'' name \<or> ends_with_ci ''.mov'' name"

section \<open>Sample inputs\<close>

definition blank_imageData :: "nat \<Rightarrow> nat \<Rightarrow> imageData" where
  "blank_imageData w h = \<lparr>width = w, height = h, data = replicate (w * h * 4) 0\<rparr>"

text \<open>A 2 by 1 raster, as pixel data and as a decoded image.\<close>

definition tiny :: imageData where
  "tiny = \<lparr>width = 2, height = 1, data = [10, 20, 30, 255, 40, 50, 60, 255]\<rparr>"

definition tiny_image :: htmlImage where
  "tiny_image = \<lparr>image_width = 2, image_height = 1, image_pixels = [10, 20, 30, 255, 40, 50, 60, 255]\<rparr>"

text \<open>A 3 by 3 raster whose centre pixel differs from its neighbours.\<close>

definition edge3 :: imageData where
  "edge3 = \<lparr>width = 3, height = 3,
     data = [10, 20, 30, 255,   40, 50, 60, 255,    10, 20, 30, 255,
             70, 80, 90, 255,   100, 101, 102, 77,  12, 22, 32, 255,
             10, 20, 30, 255,   44, 54, 64, 255,    10, 20, 30, 255]\<rparr>"

text \<open>
  A 3 by 3 raster on which the exact kernel sum of the red channel at sharpness 10 would be
  51.5, while the doubles of the loop give 51.499999999999986.
\<close>

definition tie3 :: imageData where
  "tie3 = \<lparr>width = 3, height = 3,
     data = [10, 20, 30, 255,    54, 50, 60, 255,    10, 20, 30, 255,
             150, 80, 90, 255,   64, 101, 102, 77,   105, 22, 32, 255,
             10, 20, 30, 255,    72, 54, 64, 255,    10, 20, 30, 255]\<rparr>"

text \<open>A 3 by 3 image, every pixel opaque mid-grey.\<close>

definition gray3_image :: htmlImage where
  "gray3_image = \<lparr>image_width = 3, image_height = 3,
     image_pixels = [128, 128, 128, 255,  128, 128, 128, 255,  128, 128, 128, 255,
                     128, 128, 128, 255,  128, 128, 128, 255,  128, 128, 128, 255,
                     128, 128, 128, 255,  128, 128, 128, 255,  128, 128, 128, 255]\<rparr>"

text \<open>
  A drawing step that leaves the image's pixels as they are, which is what a browser does
  with the identity transform and the filters at 100 percent.
\<close>

definition copy_rasterizer :: rasterizer where
  "copy_rasterizer m f img w h = image_pixels img"

text \<open>The filter string of a render with brightness, contrast and saturation at 100.\<close>

definition identity_filter :: css_filter where
  "identity_filter = \<lparr>filter_brightness = 100, filter_contrast = 100, filter_saturate = 100\<rparr>"

text \<open>Two stored files: a video, and an image whose name contains a video extension.\<close>

definition sample_files :: "fileObject list" where
  "sample_files =
     [\<lparr>file_id = ''1'', file_name = ''Clip.MP4''\<rparr>, \<lparr>file_id = ''2'', file_name = ''a.mp4.png''\<rparr>]"

section \<open>What the sharpening loops leave in the output buffer\<close>

lemma length_sharpen_pixel [simp]: "length (sharpen_pixel dat w ker y x out) = length out"
  by (simp add: sharpen_pixel_def sharpen_channel_def Let_def)

lemma length_fold_sharpen_pixel [simp]:
  "length (fold (\<lambda>x out. sharpen_pixel dat w ker y x out) xs out) = length out"
  by (induction xs arbitrary: out) simp_all

lemma length_sharpen_row [simp]: "length (sharpen_row dat w ker y out) = length out"
  by (simp add: sharpen_row_def)

lemma length_fold_sharpen_row [simp]:
  "length (fold (\<lambda>y out. sharpen_row dat w ker y out) ys out) = length out"
  by (induction ys arbitrary: out) simp_all

lemma length_sharpen_rows [simp]: "length (sharpen_rows dat w h ker out) = length out"
  by (simp add: sharpen_rows_def)

lemma four_updates_nth:
  fixes p :: nat
  assumes "i < length out"
  shows "out[p * 4 := a, p * 4 + 1 := b, p * 4 + 2 := c, p * 4 + 3 := d] ! i =
           (if i div 4 = p
            then (if i mod 4 = 0 then a else if i mod 4 = 1 then b else if i mod 4 = 2 then c else d)
            else out ! i)"
proof (cases "i div 4 = p")
  case False
  then have "i \<noteq> p * 4" "i \<noteq> p * 4 + 1" "i \<noteq> p * 4 + 2" "i \<noteq> p * 4 + 3"
    by auto
  with False show ?thesis by simp
next
  case True
  have "i = p * 4 + i mod 4" using True by (metis div_mult_mod_eq)
  moreover have "i mod 4 < 4" by simp
  ultimately consider "i = p * 4" "i mod 4 = 0" | "i = p * 4 + 1" "i mod 4 = 1"
    | "i = p * 4 + 2" "i mod 4 = 2" | "i = p * 4 + 3" "i mod 4 = 3"
    by (cases "i mod 4 = 0"; cases "i mod 4 = 1"; cases "i mod 4 = 2"; cases "i mod 4 = 3") auto
  then show ?thesis
    using assms True by cases (simp_all add: nth_list_update)
qed

lemma sharpen_pixel_unfold:
  "sharpen_pixel dat w ker y x out =
     out[(y * w + x) * 4 := ToUint8Clamp (Math_min (Fin 255) (Math_max (Fin 0) (kernel_sum dat w ker y x 0))),
         (y * w + x) * 4 + 1 := ToUint8Clamp (Math_min (Fin 255) (Math_max (Fin 0) (kernel_sum dat w ker y x 1))),
         (y * w + x) * 4 + 2 := ToUint8Clamp (Math_min (Fin 255) (Math_max (Fin 0) (kernel_sum dat w ker y x 2))),
         (y * w + x) * 4 + 3 := dat ! ((y * w + x) * 4 + 3)]"
  by (simp add: sharpen_pixel_def sharpen_channel_def Let_def)

lemma sharpen_pixel_nth:
  assumes "i < length out" and "x < w"
  shows "sharpen_pixel dat w ker y x out ! i =
           (if i div 4 = y * w + x then stored_sample dat w ker i else out ! i)"
proof (cases "i div 4 = y * w + x")
  case False
  then show ?thesis
    unfolding sharpen_pixel_unfold four_updates_nth [OF assms(1)] by simp
next
  case True
  have y: "i div 4 div w = y" and x: "i div 4 mod w = x"
    using assms(2) True by simp_all
  have i: "i = (y * w + x) * 4 + i mod 4"
    using True by (metis div_mult_mod_eq)
  have "i mod 4 < 4" by simp
  then consider "i mod 4 = 0" | "i mod 4 = 1" | "i mod 4 = 2" | "i mod 4 = 3"
    by linarith
  then have "sharpen_pixel dat w ker y x out ! i = stored_sample dat w ker i"
  proof cases
    case 1
    then show ?thesis
      unfolding sharpen_pixel_unfold four_updates_nth [OF assms(1)] stored_sample_def y x
      using True by simp
  next
    case 2
    then show ?thesis
      unfolding sharpen_pixel_unfold four_updates_nth [OF assms(1)] stored_sample_def y x
      using True by simp
  next
    case 3
    then show ?thesis
      unfolding sharpen_pixel_unfold four_updates_nth [OF assms(1)] stored_sample_def y x
      using True by simp
  next
    case 4
    then have "i = (y * w + x) * 4 + 3" using i by simp
    with 4 show ?thesis
      unfolding sharpen_pixel_unfold four_updates_nth [OF assms(1)] stored_sample_def y x
      using True by simp
  qed
  with True show ?thesis by simp
qed

lemma fold_sharpen_pixel_nth:
  assumes "i < length out" and "\<forall>x \<in> set xs. x < w"
  shows "fold (\<lambda>x out. sharpen_pixel dat w ker y x out) xs out ! i =
           (if i div 4 div w = y \<and> i div 4 mod w \<in> set xs
            then stored_sample dat w ker i else out ! i)"
  using assms
proof (induction xs rule: rev_induct)
  case Nil
  then show ?case by simp
next
  case (snoc x xs)
  have x: "x < w" using snoc.prems by simp
  have hit: "i div 4 = y * w + x \<longleftrightarrow> i div 4 div w = y \<and> i div 4 mod w = x"
  proof
    assume "i div 4 = y * w + x"
    then show "i div 4 div w = y \<and> i div 4 mod w = x" using x by simp
  next
    assume "i div 4 div w = y \<and> i div 4 mod w = x"
    then have "y * w + x = i div 4 div w * w + i div 4 mod w" by simp
    then show "i div 4 = y * w + x" by simp
  qed
  show ?case
    using snoc.IH snoc.prems by (auto simp: sharpen_pixel_nth [OF _ x] hit)
qed

lemma sharpen_row_nth:
  assumes "i < length out"
  shows "sharpen_row dat w ker y out ! i =
           (if i div 4 div w = y \<and> 1 \<le> i div 4 mod w \<and> i div 4 mod w < w - 1
            then stored_sample dat w ker i else out ! i)"
proof -
  have "\<forall>x \<in> set [1..<w - 1]. x < w" by auto
  from fold_sharpen_pixel_nth [OF assms this, of dat ker y] show ?thesis
    by (simp add: sharpen_row_def)
qed

lemma fold_sharpen_row_nth:
  assumes "i < length out"
  shows "fold (\<lambda>y out. sharpen_row dat w ker y out) ys out ! i =
           (if i div 4 div w \<in> set ys \<and> 1 \<le> i div 4 mod w \<and> i div 4 mod w < w - 1
            then stored_sample dat w ker i else out ! i)"
  using assms
proof (induction ys rule: rev_induct)
  case Nil
  then show ?case by simp
next
  case (snoc y ys)
  then show ?case by (auto simp: sharpen_row_nth)
qed

lemma sharpen_rows_nth:
  assumes "i < length out"
  shows "sharpen_rows dat w h ker out ! i =
           (if 1 \<le> i div 4 div w \<and> i div 4 div w < h - 1 \<and> 1 \<le> i div 4 mod w \<and> i div 4 mod w < w - 1
            then stored_sample dat w ker i else out ! i)"
  using fold_sharpen_row_nth [OF assms, of dat w ker "[1..<h - 1]"]
  by (auto simp: sharpen_rows_def)

lemma ToUint8Clamp_le: "ToUint8Clamp v \<le> 255"
proof (cases v)
  case (Fin x)
  show ?thesis
  proof (cases "x \<le> 0 \<or> 255 \<le> x")
    case True
    then show ?thesis using Fin by (auto simp: ToUint8Clamp_def)
  next
    case False
    then have "\<lfloor>x\<rfloor> < 255" "0 \<le> \<lfloor>x\<rfloor>" by (simp_all add: floor_less_iff)
    then have "nat \<lfloor>x\<rfloor> \<le> 255" "nat (\<lfloor>x\<rfloor> + 1) \<le> 255" by linarith+
    then show ?thesis using Fin False by (simp add: ToUint8Clamp_def Let_def)
  qed
qed (simp_all add: ToUint8Clamp_def)

lemma sample_in_range:
  fixes y h x w c :: nat
  assumes "y < h" "x < w" "c < 4"
  shows "(y * w + x) * 4 + c < w * h * 4"
proof -
  have "y * w + x < y * w + w" using assms(2) by simp
  also have "\<dots> = (y + 1) * w" by simp
  also have "\<dots> \<le> h * w" using assms(1) by (intro mult_le_mono1) simp
  finally have "y * w + x < w * h" by (simp add: mult.commute)
  then have "(y * w + x) * 4 + 4 \<le> w * h * 4" by simp
  with assms(3) show ?thesis by simp
qed

lemma typed_get_neighbour:
  assumes len: "length dat = w * h * 4"
    and y: "1 \<le> y" "y + 1 < h" and x: "1 \<le> x" "x + 1 < w" and c: "c < 4"
    and ky: "ky \<in> {-1, 0, 1}" and kx: "kx \<in> {-1, 0, 1}"
  shows "typed_get dat (((int y + ky) * int w + (int x + kx)) * 4 + int c) =
           Fin (real (dat ! (nat ((int y + ky) * int w + (int x + kx)) * 4 + c)))"
proof -
  define y' where "y' = nat (int y + ky)"
  define x' where "x' = nat (int x + kx)"
  have y': "int y' = int y + ky" "y' < h" using y ky by (auto simp: y'_def)
  have x': "int x' = int x + kx" "x' < w" using x kx by (auto simp: x'_def)
  have eq: "((int y + ky) * int w + (int x + kx)) * 4 + int c = int ((y' * w + x') * 4 + c)"
    using y'(1) x'(1) by simp
  have n: "(y' * w + x') * 4 + c < length dat"
    using sample_in_range [OF y'(2) x'(2) c] len by simp
  have nat_eq: "nat ((int y + ky) * int w + (int x + kx)) = y' * w + x'"
    using y'(1) x'(1) by (metis nat_int of_nat_add of_nat_mult)
  have "typed_get dat (int n) = Fin (real (dat ! n))" if "n < length dat" for n
    using that by (simp add: typed_get_def)
  from this [OF n] show ?thesis
    by (simp only: eq nat_eq)
qed

lemma kernel_sum_interior:
  assumes len: "length (data im) = width im * height im * 4"
    and y: "1 \<le> y" "y + 1 < height im" and x: "1 \<le> x" "x + 1 < width im" and c: "c < 4"
  shows "kernel_sum (data im) (width im) (kernel_array k) y x c = spec_convolution im k y x c"
proof -
  define dat where "dat = data im"
  define w where "w = width im"
  define h where "h = height im"
  note len = len [folded dat_def w_def h_def]
  note y = y [folded h_def]
  note x = x [folded w_def]
  note tg = typed_get_neighbour [OF len y x c]
  define px where "px dy dx = sample_at im (int y + dy) (int x + dx) c" for dy dx
  have px: "Fin (real (dat ! (nat ((int y + dy) * int w + (int x + dx)) * 4 + c))) = px dy dx" for dy dx
    by (simp add: px_def sample_at_def dat_def w_def)
  have t: "kernel_term dat w (kernel_array k) y x c ky kx acc =
             num_add acc (num_mul (px ky kx) (spec_weight k ky kx))"
    if "ky \<in> {-1, 0, 1}" "kx \<in> {-1, 0, 1}" for ky kx acc
  proof -
    have "array_get (kernel_array k) ((ky + 1) * 3 + (kx + 1)) = spec_weight k ky kx"
      using that by (auto simp: array_get_def kernel_array_def spec_weight_def)
    then show ?thesis
      unfolding kernel_term_def Let_def by (simp only: tg [OF that] px)
  qed
  have "kernel_sum dat w (kernel_array k) y x c =
          fold (\<lambda>(dy, dx) acc. num_add acc (num_mul (px dy dx) (spec_weight k dy dx)))
            neighbourhood (Fin 0)"
    by (simp add: kernel_sum_def neighbourhood_def t)
  then show ?thesis
    by (simp only: spec_convolution_def px_def dat_def w_def)
qed

lemma applySharpen_wf:
  assumes "wf_imageData im"
  shows "applySharpen im amount =
           Inr \<lparr>width = width im, height = height im,
                data = sharpen_rows (data im) (width im) (height im) (kernel_array amount)
                         (replicate (width im * height im * 4) 0)\<rparr>"
  using assms by (simp add: applySharpen_def new_ImageData_def wf_imageData_def Let_def)

lemma sharpen_rows_small:
  assumes "w < 3 \<or> h < 3"
  shows "sharpen_rows dat w h ker out = out"
proof -
  have "fold (\<lambda>y out. sharpen_row dat w ker y out) ys out = out" if "w < 3" for ys
  proof -
    have "w - 1 \<le> 1" using that by simp
    then have "sharpen_row dat w ker y out' = out'" for y out'
      by (simp add: sharpen_row_def)
    then show ?thesis by (induction ys) simp_all
  qed
  moreover have "fold (\<lambda>y out. sharpen_row dat w ker y out) [1..<h - 1] out = out" if "h < 3"
  proof -
    have "h - 1 \<le> 1" using that by simp
    then show ?thesis by simp
  qed
  ultimately show ?thesis using assms unfolding sharpen_rows_def by blast
qed

lemma applyFilters_sharpen:
  assumes "image_elem st = Some img" "canvasRef st = Some cv" "context2d cv" "sharpness st > 0"
    and "getImageData (composited drawImage st img) (image_width img) (image_height img) = Inr im"
    and "applySharpen im (round_to_double (sharpness st / 100)) = Inr sharpened"
  shows "applyFilters drawImage st =
           Inr (st\<lparr>canvasRef := Some (cv\<lparr>canvas_width := image_width img,
                  canvas_height := image_height img, canvas_pixels := data sharpened\<rparr>)\<rparr>)"
  using assms by (simp add: applyFilters_def Let_def)

section \<open>Images too small to have an interior\<close>

text \<open>
  C10. For an image whose width or height is below 3, \<^verbatim>\<open>applySharpen\<close> returns, for every
  amount, a buffer of the same size in which every sample (colour and alpha) is 0: the loop
  body never runs and the output buffer is fresh. A render of such an image with a positive
  sharpness therefore leaves a blank canvas.
\<close>

theorem sharpen_small_image_blank:
  assumes "wf_imageData im" and "width im < 3 \<or> height im < 3"
  shows "applySharpen im amount = Inr (blank_imageData (width im) (height im)) \<and>
         (image_elem st = Some img \<and> canvasRef st = Some cv \<and> context2d cv \<and> sharpness st > 0 \<and>
          getImageData (composited drawImage st img) (image_width img) (image_height img) = Inr im
          \<longrightarrow> applyFilters drawImage st =
                Inr (st\<lparr>canvasRef := Some (cv\<lparr>canvas_width := image_width img,
                       canvas_height := image_height img,
                       canvas_pixels := replicate (width im * height im * 4) 0\<rparr>)\<rparr>))"
proof -
  have blank: "applySharpen im a = Inr (blank_imageData (width im) (height im))" for a
    using applySharpen_wf [OF assms(1)] sharpen_rows_small [OF assms(2)]
    by (simp add: blank_imageData_def)
  show ?thesis
  proof (intro conjI impI)
    show "applySharpen im amount = Inr (blank_imageData (width im) (height im))"
      by (rule blank)
  next
    assume a: "image_elem st = Some img \<and> canvasRef st = Some cv \<and> context2d cv \<and> sharpness st > 0 \<and>
          getImageData (composited drawImage st img) (image_width img) (image_height img) = Inr im"
    then show "applyFilters drawImage st =
                Inr (st\<lparr>canvasRef := Some (cv\<lparr>canvas_width := image_width img,
                       canvas_height := image_height img,
                       canvas_pixels := replicate (width im * height im * 4) 0\<rparr>)\<rparr>)"
      using applyFilters_sharpen [of st img cv drawImage im, OF _ _ _ _ _ blank]
      by (simp add: blank_imageData_def)
  qed
qed

theorem sharpen_small_image_blank_witness:
  "applySharpen tiny 1 = Inr \<lparr>width = 2, height = 1, data = [0, 0, 0, 0, 0, 0, 0, 0]\<rparr> \<and>
   applyFilters (\<lambda>m f img w h. image_pixels img) (mounted_editor\<lparr>image_elem := Some tiny_image, sharpness := 100\<rparr>) =
     Inr (mounted_editor\<lparr>image_elem := Some tiny_image, sharpness := 100,
            canvasRef := Some (default_canvas\<lparr>canvas_width := 2, canvas_height := 1,
               canvas_pixels := [0, 0, 0, 0, 0, 0, 0, 0]\<rparr>)\<rparr>)"
proof -
  let ?st = "mounted_editor\<lparr>image_elem := Some tiny_image, sharpness := 100\<rparr>"
  let ?draw = "\<lambda>(m :: transform) (f :: css_filter) img (w :: nat) (h :: nat). image_pixels img"
  have wf: "wf_imageData tiny" by (simp add: tiny_def wf_imageData_def)
  have small: "width tiny < 3 \<or> height tiny < 3" by (simp add: tiny_def)
  have st: "image_elem ?st = Some tiny_image \<and> canvasRef ?st = Some default_canvas \<and>
            context2d default_canvas \<and> sharpness ?st > 0 \<and>
            getImageData (composited ?draw ?st tiny_image) (image_width tiny_image)
              (image_height tiny_image) = Inr tiny"
    by (simp add: mounted_editor_def initial_editor_def default_canvas_def getImageData_def
        composited_def tiny_def tiny_image_def)
  have zeros: "replicate 8 (0::nat) = [0, 0, 0, 0, 0, 0, 0, 0]"
    by (simp add: numeral_eq_Suc)
  have dims: "width tiny = 2" "height tiny = 1" "image_width tiny_image = 2" "image_height tiny_image = 1"
    by (simp_all add: tiny_def tiny_image_def)
  from sharpen_small_image_blank [OF wf small, of 1 ?st tiny_image default_canvas ?draw] st
  show ?thesis
    by (simp add: blank_imageData_def dims zeros)
qed

lemma applySharpen_nth:
  assumes wf: "wf_imageData im" and i: "i < width im * height im * 4"
  shows "\<exists>out. applySharpen im amount = Inr out \<and> width out = width im \<and> height out = height im \<and>
           length (data out) = width im * height im * 4 \<and>
           data out ! i =
             (if 1 \<le> i div 4 div width im \<and> i div 4 div width im < height im - 1 \<and>
                 1 \<le> i div 4 mod width im \<and> i div 4 mod width im < width im - 1
              then stored_sample (data im) (width im) (kernel_array amount) i else 0)"
proof -
  have "i < length (replicate (width im * height im * 4) (0::nat))" using i by simp
  from sharpen_rows_nth [OF this, of "data im" "width im" "height im" "kernel_array amount"] i
  show ?thesis
    by (simp add: applySharpen_wf [OF wf])
qed

section \<open>Interior pixels\<close>

text \<open>
  C4. For every sharpness \<open>s\<close> (so for every \<open>s > 0\<close>) and every interior pixel \<open>(x, y)\<close>, one
  whose eight neighbours exist, the sharpening pass with \<open>k = s / 100\<close> stores in each of the
  three colour channels the convolution of that channel with the kernel of centre weight
  \<open>1 + 4 * k\<close>, orthogonal weights \<open>- k\<close> and diagonal weights 0, evaluated in double precision
  row by row, clamped to \<open>[0, 255]\<close> (and converted to a byte by the typed array), and copies
  the alpha sample of the input.
\<close>

theorem sharpen_interior_pixel:
  assumes wf: "wf_imageData im"
    and x: "1 \<le> x" "x + 1 < width im" and y: "1 \<le> y" "y + 1 < height im" and c: "c < 3"
  shows "\<exists>out. applySharpen im (round_to_double (s / 100)) = Inr out \<and>
           data out ! ((y * width im + x) * 4 + c) =
             ToUint8Clamp (Math_min (Fin 255) (Math_max (Fin 0)
               (spec_convolution im (round_to_double (s / 100)) y x c))) \<and>
           data out ! ((y * width im + x) * 4 + c) \<le> 255 \<and>
           data out ! ((y * width im + x) * 4 + 3) = data im ! ((y * width im + x) * 4 + 3)"
proof -
  define w where "w = width im"
  define p where "p = y * w + x"
  define k where "k = round_to_double (s / 100)"
  have xw: "x < w" using x by (simp add: w_def)
  have yh: "y < height im" using y by simp
  have pdiv: "p div w = y" and pmod: "p mod w = x" using xw by (simp_all add: p_def)
  have len: "length (data im) = width im * height im * 4" using wf by (simp add: wf_imageData_def)
  have interior: "1 \<le> p div w \<and> p div w < height im - 1 \<and> 1 \<le> p mod w \<and> p mod w < w - 1"
    unfolding pdiv pmod using x y by (simp add: w_def less_diff_conv)
  have idx: "(p * 4 + j) div 4 = p" "(p * 4 + j) mod 4 = j" if "j < 4" for j
    using that by simp_all
  have rng: "p * 4 + j < width im * height im * 4" if "j < 4" for j
    using sample_in_range [OF yh xw [unfolded w_def] that] by (simp add: p_def w_def)
  have c4: "c < 4" using c by simp
  from applySharpen_nth [OF wf rng [OF c4], of k]
  obtain out where out: "applySharpen im k = Inr out"
    and colour: "data out ! (p * 4 + c) = stored_sample (data im) w (kernel_array k) (p * 4 + c)"
    using interior by (auto simp: idx [OF c4] w_def [symmetric])
  from applySharpen_nth [OF wf rng [of 3], of k] out
  have alpha: "data out ! (p * 4 + 3) = stored_sample (data im) w (kernel_array k) (p * 4 + 3)"
    using interior by (auto simp: idx [of 3] w_def [symmetric])
  have ks: "kernel_sum (data im) w (kernel_array k) y x c = spec_convolution im k y x c"
    unfolding w_def by (rule kernel_sum_interior [OF len y x c4])
  have cne: "c \<noteq> 3" using c by simp
  have colour': "data out ! (p * 4 + c) =
      ToUint8Clamp (Math_min (Fin 255) (Math_max (Fin 0) (spec_convolution im k y x c)))"
    unfolding colour stored_sample_def idx [OF c4] pdiv pmod ks
    using cne by simp
  have alpha': "data out ! (p * 4 + 3) = data im ! (p * 4 + 3)"
    unfolding alpha stored_sample_def by (simp add: idx [of 3])
  have "data out ! (p * 4 + c) \<le> 255"
    unfolding colour' by (rule ToUint8Clamp_le)
  with out colour' alpha' show ?thesis
    unfolding p_def w_def k_def by blast
qed

lemmas double_eval =
  to_number_def round_to_double_def float_exp.simps round_half_even_def pow2_def Let_def

lemma tie3_convolution:
  "ToUint8Clamp (Math_min (Fin 255) (Math_max (Fin 0)
     (spec_convolution tie3 (round_to_double (10 / 100)) 1 1 0))) = 51"
proof -
  have k: "round_to_double (10 / 100) = 3602879701896397 / 36028797018963968"
    by (simp add: double_eval)
  show ?thesis
    unfolding k
    by (simp add: double_eval spec_convolution_def neighbourhood_def sample_at_def spec_weight_def
        tie3_def ToUint8Clamp_def)
qed

theorem sharpen_interior_pixel_witness:
  "\<exists>out. applySharpen tie3 (round_to_double (10 / 100)) = Inr out \<and>
     data out ! 16 = 51 \<and> data out ! 16 \<le> 255 \<and> data out ! 19 = 77"
proof -
  have wf: "wf_imageData tie3" by (simp add: wf_imageData_def tie3_def)
  have h: "1 \<le> (1::nat)" "1 + 1 < width tie3" "1 + 1 < height tie3" "(0::nat) < 3"
    by (simp_all add: tie3_def)
  have i: "(1 * width tie3 + 1) * 4 + 0 = 16" "(1 * width tie3 + 1) * 4 + 3 = 19"
    by (simp_all add: tie3_def)
  have a: "data tie3 ! 19 = 77" by (simp add: tie3_def)
  from sharpen_interior_pixel [OF wf h(1) h(2) h(1) h(3) h(4), of 10]
  show ?thesis unfolding i tie3_convolution a .
qed

lemma applyFilters_unsharpened:
  assumes "image_elem st = Some img" "canvasRef st = Some cv" "context2d cv" "\<not> sharpness st > 0"
  shows "applyFilters drawImage st =
           Inr (st\<lparr>canvasRef := Some (cv\<lparr>canvas_width := image_width img,
                  canvas_height := image_height img,
                  canvas_pixels := composited drawImage st img\<rparr>)\<rparr>)"
  using assms by (simp add: applyFilters_def Let_def)

lemma gray3_kernel_sum:
  "kernel_sum (image_pixels gray3_image) 3 (kernel_array 1) (Suc 0) (Suc 0) 0 = Fin 128"
  "kernel_sum (image_pixels gray3_image) 3 (kernel_array 1) (Suc 0) (Suc 0) (Suc 0) = Fin 128"
  "kernel_sum (image_pixels gray3_image) 3 (kernel_array 1) (Suc 0) (Suc 0) 2 = Fin 128"
  by (simp_all add: double_eval kernel_sum_def kernel_term_def typed_get_def array_get_def
      kernel_array_def gray3_image_def)

lemma centre_pixel_update:
  "(replicate 36 z)[16 := a, 17 := b, 18 := c, 19 := d] =
     [z, z, z, z,  z, z, z, z,  z, z, z, z,
      z, z, z, z,  a, b, c, d,  z, z, z, z,
      z, z, z, z,  z, z, z, z,  z, z, z, z]"
  by (simp add: numeral_eq_Suc)

lemma gray3_sharpened:
  "applySharpen \<lparr>width = 3, height = 3, data = image_pixels gray3_image\<rparr> (round_to_double (100 / 100)) =
     Inr \<lparr>width = 3, height = 3,
          data = [0, 0, 0, 0,  0, 0, 0, 0,          0, 0, 0, 0,
                  0, 0, 0, 0,  128, 128, 128, 255,  0, 0, 0, 0,
                  0, 0, 0, 0,  0, 0, 0, 0,          0, 0, 0, 0]\<rparr>"
proof -
  define dat where "dat = image_pixels gray3_image"
  have k: "round_to_double (100 / 100) = 1"
    by (simp add: double_eval)
  have rows: "[Suc 0..<2] = [Suc 0]"
    by (simp add: upt_rec)
  have one_pixel: "sharpen_rows dat 3 3 ker out = sharpen_pixel dat 3 ker (Suc 0) (Suc 0) out" for ker out
    by (simp add: sharpen_rows_def sharpen_row_def rows)
  have byte: "ToUint8Clamp (Fin 128) = 128"
    by (simp add: ToUint8Clamp_def)
  have alpha: "dat ! 19 = 255"
    by (simp add: dat_def gray3_image_def)
  have pixel: "sharpen_pixel dat 3 (kernel_array 1) (Suc 0) (Suc 0) (replicate 36 0) =
      [0, 0, 0, 0,  0, 0, 0, 0,          0, 0, 0, 0,
       0, 0, 0, 0,  128, 128, 128, 255,  0, 0, 0, 0,
       0, 0, 0, 0,  0, 0, 0, 0,          0, 0, 0, 0]"
    by (simp add: sharpen_pixel_unfold gray3_kernel_sum [folded dat_def] byte alpha
        centre_pixel_update)
  show ?thesis
    unfolding k applySharpen_def new_ImageData_def Let_def
    by (simp add: one_pixel [unfolded dat_def] pixel [unfolded dat_def])
qed

section \<open>Border pixels\<close>

text \<open>
  C1. The design document wants the border pixels of a sharpened render (row 0, the last
  row, column 0, the last column) to equal those of the composited image before sharpening.
  \<^verbatim>\<open>applySharpen\<close> skips them in its loops but writes into a fresh buffer, and the whole
  buffer replaces the canvas: on a 3 by 3 opaque grey image at sharpness 100 the composited
  image is grey everywhere, and the rendered canvas keeps the centre pixel only, the eight
  border pixels being transparent black.
\<close>

theorem sharpen_zeroes_border:
  "composited copy_rasterizer (mounted_editor\<lparr>image_elem := Some gray3_image, sharpness := 100\<rparr>) gray3_image =
     [128, 128, 128, 255,  128, 128, 128, 255,  128, 128, 128, 255,
      128, 128, 128, 255,  128, 128, 128, 255,  128, 128, 128, 255,
      128, 128, 128, 255,  128, 128, 128, 255,  128, 128, 128, 255] \<and>
   applyFilters copy_rasterizer (mounted_editor\<lparr>image_elem := Some gray3_image, sharpness := 100\<rparr>) =
     Inr (mounted_editor\<lparr>image_elem := Some gray3_image, sharpness := 100,
            canvasRef := Some (default_canvas\<lparr>canvas_width := 3, canvas_height := 3,
              canvas_pixels :=
                 [0, 0, 0, 0,  0, 0, 0, 0,          0, 0, 0, 0,
                  0, 0, 0, 0,  128, 128, 128, 255,  0, 0, 0, 0,
                  0, 0, 0, 0,  0, 0, 0, 0,          0, 0, 0, 0]\<rparr>)\<rparr>)"
proof -
  let ?st = "mounted_editor\<lparr>image_elem := Some gray3_image, sharpness := 100\<rparr>"
  have c: "composited copy_rasterizer ?st gray3_image = image_pixels gray3_image"
    by (simp add: composited_def copy_rasterizer_def)
  have st: "image_elem ?st = Some gray3_image" "canvasRef ?st = Some default_canvas"
    "context2d default_canvas" "sharpness ?st > 0"
    "round_to_double (sharpness ?st / 100) = round_to_double (100 / 100)"
    by (simp_all add: mounted_editor_def initial_editor_def default_canvas_def)
  have g: "getImageData (composited copy_rasterizer ?st gray3_image) (image_width gray3_image)
             (image_height gray3_image) = Inr \<lparr>width = 3, height = 3, data = image_pixels gray3_image\<rparr>"
    unfolding c by (simp add: getImageData_def gray3_image_def)
  have dims: "image_width gray3_image = 3" "image_height gray3_image = 3"
    by (simp_all add: gray3_image_def)
  from applyFilters_sharpen [OF st(1-4) g gray3_sharpened [folded st(5)]]
  show ?thesis unfolding c by (simp add: dims gray3_image_def)
qed

section \<open>Rendering without sharpening\<close>

text \<open>
  C8. For every loaded image and every value of the other parameters, a render with
  sharpness 0 leaves on the canvas exactly the composited image of the drawing step: the
  convolution is not applied to any pixel.
\<close>

theorem render_without_sharpness:
  assumes "image_elem st = Some img" and "canvasRef st = Some cv" and "context2d cv"
    and "sharpness st = 0"
  shows "applyFilters drawImage st =
           Inr (st\<lparr>canvasRef := Some (cv\<lparr>canvas_width := image_width img,
                  canvas_height := image_height img,
                  canvas_pixels := composited drawImage st img\<rparr>)\<rparr>)"
  using assms by (intro applyFilters_unsharpened) simp_all

theorem render_without_sharpness_witness:
  "applyFilters copy_rasterizer (mounted_editor\<lparr>image_elem := Some gray3_image, brightness := 150, rotation := 90\<rparr>) =
     Inr (mounted_editor\<lparr>image_elem := Some gray3_image, brightness := 150, rotation := 90,
            canvasRef := Some (default_canvas\<lparr>canvas_width := 3, canvas_height := 3,
              canvas_pixels := image_pixels gray3_image\<rparr>)\<rparr>)"
proof -
  let ?st = "mounted_editor\<lparr>image_elem := Some gray3_image, brightness := 150, rotation := 90\<rparr>"
  have st: "image_elem ?st = Some gray3_image" "canvasRef ?st = Some default_canvas"
    "context2d default_canvas" "sharpness ?st = 0"
    by (simp_all add: mounted_editor_def initial_editor_def default_canvas_def)
  have c: "composited copy_rasterizer ?st gray3_image = image_pixels gray3_image"
    by (simp add: composited_def copy_rasterizer_def)
  have dims: "image_width gray3_image = 3" "image_height gray3_image = 3"
    by (simp_all add: gray3_image_def)
  from render_without_sharpness [OF st, of copy_rasterizer]
  show ?thesis unfolding c dims by simp
qed

section \<open>Rendering with the default parameters\<close>

lemma ctx_transform_default:
  assumes "rotation st = 0" "zoom st = 1"
  shows "ctx_transform st cw ch = identity_transform"
  using assms
  by (simp add: ctx_transform_def translate_def scale_def rotate_by_def identity_transform_def)

text \<open>
  C5. For every loaded image, a render with all parameters at their defaults (brightness,
  contrast and saturation 100, sharpness 0, rotation 0, zoom 1) composes the identity
  transform, sets the identity filter and applies no sharpening; with a drawing step that
  reproduces an image under the identity transform and filter, the canvas then holds the
  source image's pixels at the source image's size.
\<close>

theorem render_defaults_identity:
  assumes "image_elem st = Some img" and "canvasRef st = Some cv" and "context2d cv"
    and "brightness st = 100" and "contrast st = 100" and "saturation st = 100"
    and "sharpness st = 0" and "rotation st = 0" and "zoom st = 1"
    and platform: "drawImage identity_transform identity_filter img (image_width img) (image_height img)
                     = image_pixels img"
  shows "ctx_transform st (image_width img) (image_height img) = identity_transform \<and>
         ctx_filter st = identity_filter \<and>
         applyFilters drawImage st =
           Inr (st\<lparr>canvasRef := Some (cv\<lparr>canvas_width := image_width img,
                  canvas_height := image_height img, canvas_pixels := image_pixels img\<rparr>)\<rparr>)"
proof -
  have t: "ctx_transform st (image_width img) (image_height img) = identity_transform"
    using assms(8,9) by (rule ctx_transform_default)
  have f: "ctx_filter st = identity_filter"
    using assms(4-6) by (simp add: ctx_filter_def identity_filter_def)
  have "composited drawImage st img = image_pixels img"
    unfolding composited_def t f by (rule platform)
  moreover have "\<not> sharpness st > 0" using assms(7) by simp
  ultimately show ?thesis
    using applyFilters_unsharpened [OF assms(1-3), of drawImage] t f by simp
qed

theorem render_defaults_identity_witness:
  "ctx_transform (mounted_editor\<lparr>image_elem := Some gray3_image\<rparr>) 3 3 = identity_transform \<and>
   ctx_filter (mounted_editor\<lparr>image_elem := Some gray3_image\<rparr>) = identity_filter \<and>
   applyFilters copy_rasterizer (mounted_editor\<lparr>image_elem := Some gray3_image\<rparr>) =
     Inr (mounted_editor\<lparr>image_elem := Some gray3_image,
            canvasRef := Some (default_canvas\<lparr>canvas_width := 3, canvas_height := 3,
              canvas_pixels := image_pixels gray3_image\<rparr>)\<rparr>)"
proof -
  let ?st = "mounted_editor\<lparr>image_elem := Some gray3_image\<rparr>"
  have st: "image_elem ?st = Some gray3_image" "canvasRef ?st = Some default_canvas"
    "context2d default_canvas" "brightness ?st = 100" "contrast ?st = 100" "saturation ?st = 100"
    "sharpness ?st = 0" "rotation ?st = 0" "zoom ?st = 1"
    by (simp_all add: mounted_editor_def initial_editor_def default_canvas_def)
  have p: "copy_rasterizer identity_transform identity_filter gray3_image
             (image_width gray3_image) (image_height gray3_image) = image_pixels gray3_image"
    by (simp add: copy_rasterizer_def)
  have dims: "image_width gray3_image = 3" "image_height gray3_image = 3"
    by (simp_all add: gray3_image_def)
  from render_defaults_identity [of ?st gray3_image default_canvas copy_rasterizer, OF st p]
  show ?thesis unfolding dims by simp
qed

section \<open>Rotation and zoom buttons\<close>

lemma js_rem_nonneg: "0 \<le> a \<Longrightarrow> 0 < b \<Longrightarrow> js_rem a b = a mod b"
  by (cases "a = 0") (simp_all add: js_rem_def)

lemma handleRotate_rotation:
  assumes "- 90 \<le> rotation st"
  shows "rotation (handleRotate st) = (rotation st + 90) mod 360"
  using assms by (simp add: handleRotate_def js_rem_nonneg)

text \<open>
  C6. The rotate button replaces the rotation \<open>r\<close> by \<open>(r + 90) mod 360\<close> (the remainder
  operator of the code agrees with \<open>mod\<close> from \<open>r = - 90\<close> upwards, and the rotation is never
  negative); hence from each of 0, 90, 180 and 270 four presses lead back to the starting
  value.
\<close>

theorem rotate_step:
  "(- 90 \<le> rotation st \<longrightarrow> rotation (handleRotate st) = (rotation st + 90) mod 360) \<and>
   (rotation st \<in> {0, 90, 180, 270} \<longrightarrow>
      rotation (handleRotate (handleRotate (handleRotate (handleRotate st)))) = rotation st)"
proof (intro conjI impI)
  assume "- 90 \<le> rotation st"
  then show "rotation (handleRotate st) = (rotation st + 90) mod 360"
    by (rule handleRotate_rotation)
next
  assume r: "rotation st \<in> {0, 90, 180, 270}"
  define r0 where "r0 = rotation st"
  have r0: "0 \<le> r0" "r0 < 360" using r by (auto simp: r0_def)
  have nn: "- 90 \<le> (a + 90) mod 360" for a :: int
    by (smt (verit) pos_mod_sign)
  have 1: "rotation (handleRotate st) = (r0 + 90) mod 360"
    using r0 by (simp add: handleRotate_rotation r0_def)
  have 2: "rotation (handleRotate (handleRotate st)) = (r0 + 180) mod 360"
    using handleRotate_rotation [of "handleRotate st"] nn [of r0] by (simp add: 1 mod_simps add.commute)
  have 3: "rotation (handleRotate (handleRotate (handleRotate st))) = (r0 + 270) mod 360"
    using handleRotate_rotation [of "handleRotate (handleRotate st)"] nn [of "r0 + 90"]
    by (simp add: 2 mod_simps add.commute)
  have 4: "rotation (handleRotate (handleRotate (handleRotate (handleRotate st)))) = (r0 + 360) mod 360"
    using handleRotate_rotation [of "handleRotate (handleRotate (handleRotate st))"] nn [of "r0 + 180"]
    by (simp add: 3 mod_simps add.commute)
  show "rotation (handleRotate (handleRotate (handleRotate (handleRotate st)))) = rotation st"
    unfolding 4 using r0 by (simp add: r0_def)
qed

theorem rotate_step_witness:
  "rotation (handleRotate (initial_editor\<lparr>rotation := 270\<rparr>)) = 0 \<and>
   rotation (handleRotate (handleRotate (handleRotate (handleRotate (initial_editor\<lparr>rotation := 270\<rparr>))))) = 270"
  using rotate_step [of "initial_editor\<lparr>rotation := 270\<rparr>"] by simp


subsection \<open>Rounding keeps the zoom bounds\<close>

lemma pow2_powi: "pow2 q = 2 powi q"
  by (simp add: pow2_def power_int_def inverse_eq_divide power_one_over)

lemma pow2_pos [simp]: "0 < pow2 q"
  by (simp add: pow2_powi)

lemma pow2_nonneg [simp]: "0 \<le> pow2 q"
  by (simp add: pow2_powi)

lemma pow2_add: "pow2 (a + b) = pow2 a * pow2 b"
  by (simp add: pow2_powi power_int_add)

lemma pow2_mono: "a \<le> b \<Longrightarrow> pow2 a \<le> pow2 b"
  by (simp add: pow2_powi power_int_increasing)

lemma pow2_less_imp: "pow2 a < pow2 b \<Longrightarrow> a < b"
  using pow2_mono [of b a] by (cases "a < b") simp_all

lemma float_exp_bounds:
  "0 < x \<Longrightarrow> pow2 (float_exp x) \<le> x \<and> x < pow2 (float_exp x + 1)"
proof (induction x rule: float_exp.induct)
  case (1 x)
  have "pow2 1 = 2" by (simp add: pow2_def)
  then have step: "pow2 (e + 1) = 2 * pow2 e" for e
    by (simp add: pow2_add)
  consider "x < 1" | "2 \<le> x" | "1 \<le> x" "x < 2" by linarith
  then show ?case
  proof cases
    case 1
    then have e: "float_exp x = float_exp (2 * x) - 1"
      using "1.prems" by (subst float_exp.simps) simp
    have "pow2 (float_exp (2 * x)) \<le> 2 * x \<and> 2 * x < pow2 (float_exp (2 * x) + 1)"
      using "1.IH"(1) "1.prems" 1 by simp
    then show ?thesis
      unfolding e using step [of "float_exp (2 * x) - 1"] step [of "float_exp (2 * x)"] by simp
  next
    case 2
    then have e: "float_exp x = float_exp (x / 2) + 1"
      using "1.prems" by (subst float_exp.simps) simp
    have "pow2 (float_exp (x / 2)) \<le> x / 2 \<and> x / 2 < pow2 (float_exp (x / 2) + 1)"
      using "1.IH"(2) "1.prems" 2 by simp
    then show ?thesis
      unfolding e using step [of "float_exp (x / 2)"] step [of "float_exp (x / 2) + 1"] by simp
  next
    case 3
    then have e: "float_exp x = 0"
      by (subst float_exp.simps) simp
    show ?thesis
      unfolding e using 3 by (simp add: pow2_def)
  qed
qed

lemma round_half_even_ge: "real_of_int n \<le> t \<Longrightarrow> n \<le> round_half_even t"
proof -
  assume "real_of_int n \<le> t"
  then have "n \<le> \<lfloor>t\<rfloor>" by (simp add: le_floor_iff)
  then show ?thesis by (simp add: round_half_even_def Let_def)
qed

lemma round_half_even_le: "t \<le> real_of_int n \<Longrightarrow> round_half_even t \<le> n"
proof -
  assume t: "t \<le> real_of_int n"
  then have f: "\<lfloor>t\<rfloor> \<le> n" by (simp add: floor_le_iff)
  have "\<lfloor>t\<rfloor> + 1 \<le> n" if "real_of_int \<lfloor>t\<rfloor> < t"
  proof -
    have "real_of_int \<lfloor>t\<rfloor> < real_of_int n" using that t by linarith
    then show ?thesis by simp
  qed
  then show ?thesis
    using f by (auto simp: round_half_even_def Let_def)
qed

lemma round_to_double_ge_half:
  assumes "1 / 2 \<le> x"
  shows "1 / 2 \<le> round_to_double x"
proof -
  define e where "e = float_exp x"
  have pos: "0 < x" using assms by simp
  from float_exp_bounds [OF pos] have lo: "pow2 e \<le> x" and hi: "x < pow2 (e + 1)"
    by (simp_all add: e_def)
  have "pow2 (- 1) < pow2 (e + 1)" using assms hi by (simp add: pow2_def)
  then have e: "- 1 \<le> e" using pow2_less_imp [of "- 1" "e + 1"] by simp
  define q where "q = e - 52"
  have q: "max (float_exp x) (- 1022) - 52 = q"
    using e by (simp add: q_def e_def)
  have "pow2 e = pow2 52 * pow2 q" using pow2_add [of 52 q] by (simp add: q_def)
  then have "real_of_int (2 ^ 52) * pow2 q \<le> x" using lo by (simp add: pow2_def)
  then have "real_of_int (2 ^ 52) \<le> x / pow2 q" by (simp add: pos_le_divide_eq)
  then have "2 ^ 52 \<le> round_half_even (x / pow2 q)" by (rule round_half_even_ge)
  then have "real_of_int (2 ^ 52) \<le> real_of_int (round_half_even (x / pow2 q))"
    by (simp only: of_int_le_iff)
  then have ge: "real_of_int (2 ^ 52) * pow2 q \<le> real_of_int (round_half_even (x / pow2 q)) * pow2 q"
    by (intro mult_right_mono) simp_all
  have "1 / 2 = pow2 (- 1)" by (simp add: pow2_def)
  also have "\<dots> \<le> pow2 e" using e by (rule pow2_mono)
  also have "pow2 e = real_of_int (2 ^ 52) * pow2 q"
    using pow2_add [of 52 q] by (simp add: q_def pow2_def)
  also note ge
  also have "real_of_int (round_half_even (x / pow2 q)) * pow2 q = round_to_double x"
    using pos by (simp add: round_to_double_def Let_def q)
  finally show ?thesis .
qed

lemma round_to_double_le_three:
  assumes "x \<le> 3"
  shows "round_to_double x \<le> 3"
proof -
  consider "x = 0" | "x < 0" | "0 < x" by linarith
  then show ?thesis
  proof cases
    case 1
    then show ?thesis by (simp add: round_to_double_def)
  next
    case 2
    define q where "q = max (float_exp \<bar>x\<bar>) (- 1022) - 52"
    have "0 \<le> round_half_even (\<bar>x\<bar> / pow2 q)"
      by (rule round_half_even_ge) simp
    then have "0 \<le> real_of_int (round_half_even (\<bar>x\<bar> / pow2 q)) * pow2 q" by simp
    moreover have "round_to_double x = - (real_of_int (round_half_even (\<bar>x\<bar> / pow2 q)) * pow2 q)"
      using 2 by (simp add: round_to_double_def Let_def q_def)
    ultimately show ?thesis by linarith
  next
    case 3
    define e where "e = float_exp x"
    from float_exp_bounds [OF 3] have lo: "pow2 e \<le> x" by (simp add: e_def)
    have "pow2 e < pow2 2" using lo assms by (simp add: pow2_def)
    then have e: "e \<le> 1" using pow2_less_imp [of e 2] by simp
    define q where "q = max e (- 1022) - 52"
    have qneg: "q < 0" using e by (simp add: q_def)
    have pq: "pow2 q = 1 / 2 ^ nat (- q)" using qneg by (simp add: pow2_def)
    have "x / pow2 q \<le> 3 / pow2 q" using assms by (simp add: divide_right_mono)
    also have "3 / pow2 q = real_of_int (3 * 2 ^ nat (- q))" by (simp add: pq)
    finally have "round_half_even (x / pow2 q) \<le> 3 * 2 ^ nat (- q)"
      by (rule round_half_even_le)
    then have "real_of_int (round_half_even (x / pow2 q)) \<le> real_of_int (3 * 2 ^ nat (- q))"
      by (simp only: of_int_le_iff)
    then have le: "real_of_int (round_half_even (x / pow2 q)) * pow2 q \<le> real_of_int (3 * 2 ^ nat (- q)) * pow2 q"
      by (intro mult_right_mono) simp_all
    have "round_to_double x = real_of_int (round_half_even (x / pow2 q)) * pow2 q"
      using 3 by (simp add: round_to_double_def Let_def q_def e_def)
    also note le
    also have "real_of_int (3 * 2 ^ nat (- q)) * pow2 q = 3" by (simp add: pq)
    finally show ?thesis .
  qed
qed

lemma one_tenth: "round_to_double (1 / 10) = 3602879701896397 / 36028797018963968"
  by (simp add: double_eval)

lemma zoom_clicks_bounds:
  "1 / 2 \<le> zoom st \<Longrightarrow> zoom st \<le> 3 \<Longrightarrow>
     1 / 2 \<le> zoom (zoom_clicks cs st) \<and> zoom (zoom_clicks cs st) \<le> 3"
proof (induction cs st rule: zoom_clicks.induct)
  case (1 st)
  then show ?case by simp
next
  case (2 cs st)
  have "1 / 2 \<le> round_to_double (zoom st + round_to_double (1 / 10))"
    using "2.prems" by (intro round_to_double_ge_half) (simp add: one_tenth)
  then have "1 / 2 \<le> zoom (handleZoomIn st)" "zoom (handleZoomIn st) \<le> 3"
    by (simp_all add: handleZoomIn_def)
  then show ?case using "2.IH" by simp
next
  case (3 cs st)
  have "round_to_double (zoom st - round_to_double (1 / 10)) \<le> 3"
    using "3.prems" by (intro round_to_double_le_three) (simp add: one_tenth)
  then have "1 / 2 \<le> zoom (handleZoomOut st)" "zoom (handleZoomOut st) \<le> 3"
    by (simp_all add: handleZoomOut_def)
  then show ?case using "3.IH" by simp
qed

text \<open>
  C7. In every state reached from the initial one (zoom 1) by zoom-in and zoom-out presses,
  zoom-in stores the zoom plus 0.1 and zoom-out the zoom minus 0.1 (sum and difference in
  double precision, 0.1 being the double nearest to one tenth), each clamped to \<open>[0.5, 3]\<close>,
  and the zoom lies in \<open>[0.5, 3]\<close>.
\<close>

theorem zoom_stays_in_domain:
  "zoom (handleZoomIn (zoom_clicks cs initial_editor)) =
     max (1 / 2) (min 3 (round_to_double (zoom (zoom_clicks cs initial_editor) + round_to_double (1 / 10)))) \<and>
   zoom (handleZoomOut (zoom_clicks cs initial_editor)) =
     max (1 / 2) (min 3 (round_to_double (zoom (zoom_clicks cs initial_editor) - round_to_double (1 / 10)))) \<and>
   1 / 2 \<le> zoom (zoom_clicks cs initial_editor) \<and> zoom (zoom_clicks cs initial_editor) \<le> 3"
proof -
  define z where "z = zoom (zoom_clicks cs initial_editor)"
  define up where "up = round_to_double (z + round_to_double (1 / 10))"
  define down where "down = round_to_double (z - round_to_double (1 / 10))"
  have "1 / 2 \<le> zoom initial_editor" "zoom initial_editor \<le> 3"
    by (simp_all add: initial_editor_def)
  from zoom_clicks_bounds [OF this, of cs] have b: "1 / 2 \<le> z" "z \<le> 3"
    by (simp_all add: z_def)
  have i: "zoom (handleZoomIn (zoom_clicks cs initial_editor)) = min up 3"
    by (simp add: handleZoomIn_def z_def up_def)
  have o: "zoom (handleZoomOut (zoom_clicks cs initial_editor)) = max down (1 / 2)"
    by (simp add: handleZoomOut_def z_def down_def)
  have "1 / 2 \<le> up"
    unfolding up_def using b by (intro round_to_double_ge_half) (simp add: one_tenth)
  then have "min up 3 = max (1 / 2) (min 3 up)"
    by linarith
  moreover have "down \<le> 3"
    unfolding down_def using b by (intro round_to_double_le_three) (simp add: one_tenth)
  then have "max down (1 / 2) = max (1 / 2) (min 3 down)"
    by linarith
  ultimately show ?thesis
    unfolding i o using b by (simp only: z_def [symmetric] up_def [symmetric] down_def [symmetric] simp_thms)
qed

theorem zoom_stays_in_domain_witness:
  "zoom (zoom_clicks [ZoomIn, ZoomIn, ZoomIn] initial_editor) = 2927339757790823 / 2251799813685248 \<and>
   1 / 2 \<le> zoom (zoom_clicks [ZoomIn, ZoomIn, ZoomIn] initial_editor) \<and>
   zoom (zoom_clicks [ZoomIn, ZoomIn, ZoomIn] initial_editor) \<le> 3"
proof -
  have "zoom (zoom_clicks [ZoomIn, ZoomIn, ZoomIn] initial_editor) = 2927339757790823 / 2251799813685248"
    by (simp add: handleZoomIn_def initial_editor_def double_eval)
  with zoom_stays_in_domain [of "[ZoomIn, ZoomIn, ZoomIn]"] show ?thesis
    by (simp only: simp_thms)
qed

section \<open>Slider handlers\<close>

text \<open>
  C2, as the design document states it, wants every value handed to a setter clamped to the
  parameter's domain. The brightness handler given 250 stores 250, not the bound 200.
\<close>

theorem slider_value_not_clamped:
  "map_option brightness (onBrightnessChange [250] initial_editor) = Some 250 \<and>
   map_option brightness (onBrightnessChange [250] initial_editor) \<noteq> Some 200"
  by (simp add: onBrightnessChange_def)

text \<open>
  C2, amended. Each slider handler stores the first value of the array it receives as it is,
  without clamping and without an error; the bounds \<open>[0, 200]\<close> (brightness, contrast,
  saturation) and \<open>[0, 100]\<close> (sharpness) are the \<open>min\<close> and \<open>max\<close> attributes of the sliders.
  The zoom changes only through the zoom buttons, capped at 3 going up and at 0.5 going
  down, and the rotation only through the rotate button, which wraps modulo 360.
\<close>

theorem handlers_store_given_value:
  "onBrightnessChange (v # vs) st = Some (st\<lparr>brightness := v\<rparr>) \<and>
   onContrastChange (v # vs) st = Some (st\<lparr>contrast := v\<rparr>) \<and>
   onSaturationChange (v # vs) st = Some (st\<lparr>saturation := v\<rparr>) \<and>
   onSharpnessChange (v # vs) st = Some (st\<lparr>sharpness := v\<rparr>) \<and>
   slider_min brightness_slider = 0 \<and> slider_max brightness_slider = 200 \<and>
   slider_min contrast_slider = 0 \<and> slider_max contrast_slider = 200 \<and>
   slider_min saturation_slider = 0 \<and> slider_max saturation_slider = 200 \<and>
   slider_min sharpness_slider = 0 \<and> slider_max sharpness_slider = 100 \<and>
   zoom (handleZoomIn st) = min (round_to_double (zoom st + round_to_double (1 / 10))) 3 \<and>
   zoom (handleZoomOut st) = max (round_to_double (zoom st - round_to_double (1 / 10))) (1 / 2) \<and>
   zoom (handleZoomIn st) \<le> 3 \<and> 1 / 2 \<le> zoom (handleZoomOut st) \<and>
   (0 \<le> rotation st \<longrightarrow> rotation (handleRotate st) = (rotation st + 90) mod 360)"
  by (simp add: onBrightnessChange_def onContrastChange_def onSaturationChange_def
      onSharpnessChange_def brightness_slider_def contrast_slider_def saturation_slider_def
      sharpness_slider_def handleZoomIn_def handleZoomOut_def handleRotate_rotation)

theorem handlers_store_given_value_witness:
  "onBrightnessChange [250] initial_editor = Some (initial_editor\<lparr>brightness := 250\<rparr>) \<and>
   onSharpnessChange [- 5] initial_editor = Some (initial_editor\<lparr>sharpness := - 5\<rparr>) \<and>
   rotation (handleRotate (initial_editor\<lparr>rotation := 270\<rparr>)) = 0"
  using handlers_store_given_value [of 250 "[]" initial_editor]
    handlers_store_given_value [of "- 5" "[]" initial_editor]
    handlers_store_given_value [of 0 "[]" "initial_editor\<lparr>rotation := 270\<rparr>"]
  by simp

section \<open>Saving before an image is loaded\<close>

text \<open>
  C3, as the design document states it, wants a save before any load or render to fail with
  an export error and deliver no blob. With the canvas mounted and no image loaded,
  \<^verbatim>\<open>handleSave\<close> raises nothing and hands \<^verbatim>\<open>onSave\<close> the blob of the blank default canvas.
\<close>

theorem save_before_load_delivers_blob:
  "image_elem mounted_editor = None \<and>
   handleSave bitmap_encoder mounted_editor =
     Inr (Some \<lparr>blob_type = ''image/png'', blob_width = 300, blob_height = 150,
                 blob_pixels = replicate (300 * 150 * 4) 0\<rparr>) \<and>
   handleSave bitmap_encoder mounted_editor \<noteq> Inl SecurityError \<and>
   handleSave bitmap_encoder mounted_editor \<noteq> Inl IndexSizeError \<and>
   handleSave bitmap_encoder mounted_editor \<noteq> Inr None"
  by (simp add: handleSave_def bitmap_encoder_def mounted_editor_def initial_editor_def
      default_canvas_def)

text \<open>
  C3, amended. \<^verbatim>\<open>handleSave\<close> does not depend on whether an image has been loaded or
  rendered and signals no error of its own: without a canvas element it returns without
  delivering anything; with one, its outcome is that of \<^verbatim>\<open>toBlob\<close> on the canvas as it is, a
  blob being delivered whenever \<^verbatim>\<open>toBlob\<close> yields one.
\<close>

theorem save_ignores_image:
  "handleSave toBlob (st\<lparr>image_elem := i\<rparr>) = handleSave toBlob st \<and>
   (canvasRef st = None \<longrightarrow> handleSave toBlob st = Inr None) \<and>
   (canvasRef st = Some cv \<longrightarrow> handleSave toBlob st = toBlob cv ''image/png'')"
  by (auto simp: handleSave_def split: option.splits sum.splits)

theorem save_ignores_image_witness:
  "handleSave bitmap_encoder initial_editor = Inr None \<and>
   handleSave bitmap_encoder mounted_editor = bitmap_encoder default_canvas ''image/png''"
  using save_ignores_image [where toBlob = bitmap_encoder and st = initial_editor and cv = default_canvas]
    save_ignores_image [where toBlob = bitmap_encoder and st = mounted_editor and cv = default_canvas]
  by (simp add: initial_editor_def mounted_editor_def)

section \<open>Classification of stored files\<close>

lemma match_literal_iff: "match_literal p s = Some r \<longleftrightarrow> s = p @ r"
  by (induction p s rule: match_literal.induct) auto

lemma match_here_iff: "match_here s \<longleftrightarrow> s = ''.mp4'' \<or> s = ''.webm'' \<or> s = ''.mov''"
proof (cases "match_literal ''.'' s")
  case None
  then have "\<And>r. s \<noteq> ''.'' @ r" using match_literal_iff [of "''.''" s] by auto
  then have "s \<noteq> ''.mp4''" "s \<noteq> ''.webm''" "s \<noteq> ''.mov''" by auto
  with None show ?thesis by (simp add: match_here_def)
next
  case (Some r)
  then have s: "s = ''.'' @ r" by (simp only: match_literal_iff)
  show ?thesis
    unfolding match_here_def Some by (simp add: match_literal_iff s)
qed

lemma regex_search_iff:
  "regex_search s \<longleftrightarrow> suffix ''.mp4'' s \<or> suffix ''.webm'' s \<or> suffix ''.mov'' s"
proof (induction s)
  case Nil
  then show ?case by (simp add: match_here_iff)
next
  case (Cons ch s)
  show ?case
    unfolding regex_search.simps Cons.IH match_here_iff suffix_Cons by blast
qed

lemma length_toLowerCase [simp]: "length (toLowerCase s) = length s"
  by (simp add: toLowerCase_def)

lemma ends_with_ci_iff: "ends_with_ci ext name \<longleftrightarrow> suffix ext (toLowerCase name)"
proof
  assume e: "ends_with_ci ext name"
  have "toLowerCase name =
          take (length name - length ext) (toLowerCase name) @ drop (length name - length ext) (toLowerCase name)"
    by simp
  moreover have "drop (length name - length ext) (toLowerCase name) = ext"
    using e by (simp add: ends_with_ci_def toLowerCase_def drop_map)
  ultimately show "suffix ext (toLowerCase name)"
    by (metis suffixI)
next
  assume "suffix ext (toLowerCase name)"
  then obtain p where p: "toLowerCase name = p @ ext" by (auto simp: suffix_def)
  then have len: "length name = length p + length ext"
    by (metis length_toLowerCase length_append)
  have "toLowerCase (drop (length name - length ext) name) = drop (length name - length ext) (toLowerCase name)"
    by (simp add: toLowerCase_def drop_map)
  also have "\<dots> = ext" using p len by simp
  finally show "ends_with_ci ext name" using len by (simp add: ends_with_ci_def)
qed

lemma isVideo_iff: "regex_search (toLowerCase name) \<longleftrightarrow> spec_is_video name"
  by (simp only: regex_search_iff spec_is_video_def ends_with_ci_iff)

text \<open>
  C9. A stored file is classified as a video exactly when its name ends, ignoring case, with
  \<open>.mp4\<close>, \<open>.webm\<close> or \<open>.mov\<close>, and as an image otherwise; the 3D viewer receives exactly
  the items classified as images, and the edit button is shown for exactly those.
\<close>

theorem classify_by_extension:
  "(item_type (to_mediaItem publicUrl file) = VideoItem \<longleftrightarrow> spec_is_video (file_name file)) \<and>
   (item_type (to_mediaItem publicUrl file) = ImageItem \<longleftrightarrow> \<not> spec_is_video (file_name file)) \<and>
   set (viewer_media (map (to_mediaItem publicUrl) files)) =
     {m \<in> to_mediaItem publicUrl ` set files. \<not> spec_is_video (item_name m)} \<and>
   (edit_button_shown (to_mediaItem publicUrl file) \<longleftrightarrow> \<not> spec_is_video (file_name file))"
proof -
  have t: "item_type (to_mediaItem publicUrl f) = (if spec_is_video (file_name f) then VideoItem else ImageItem)"
    and n: "item_name (to_mediaItem publicUrl f) = file_name f" for f
    by (simp_all add: to_mediaItem_def isVideo_iff)
  have "set (viewer_media (map (to_mediaItem publicUrl) files)) =
          {m \<in> to_mediaItem publicUrl ` set files. \<not> spec_is_video (item_name m)}"
    by (auto simp: viewer_media_def t n)
  then show ?thesis by (simp add: t edit_button_shown_def)
qed

theorem classify_by_extension_witness:
  "item_type (to_mediaItem (\<lambda>n. n) \<lparr>file_id = ''1'', file_name = ''Clip.MP4''\<rparr>) = VideoItem \<and>
   spec_is_video ''Clip.MP4'' \<and>
   set (viewer_media (map (to_mediaItem (\<lambda>n. n)) sample_files)) =
     {m \<in> to_mediaItem (\<lambda>n. n) ` set sample_files. \<not> spec_is_video (item_name m)}"
proof -
  have v: "spec_is_video ''Clip.MP4''"
    by code_simp
  from classify_by_extension [of "\<lambda>n. n" "\<lparr>file_id = ''1'', file_name = ''Clip.MP4''\<rparr>" sample_files] v
  show ?thesis by simp
qed

end
